theory Spec2Isabelle
  imports Main "HOL-Library.AList"
begin

section \<open>Strings as Python handles them\<close>

text \<open>
  Python strings are modelled as \<open>string\<close>. The whitespace class is the one shared by
  \<^verbatim>\<open>str.strip()\<close> and the regular expression \<^verbatim>\<open>\s\<close> on the
  first 256 code points: tab to carriage return, the four separators 0x1C to 0x1F,
  the space, NEL (0x85) and the no-break space (0xA0).
\<close>

definition is_space :: "char \<Rightarrow> bool" where
  "is_space c \<longleftrightarrow> c \<in> set [CHR 0x09, CHR 0x0A, CHR 0x0B, CHR 0x0C, CHR 0x0D,
     CHR 0x1C, CHR 0x1D, CHR 0x1E, CHR 0x1F, CHR 0x20, CHR 0x85, CHR 0xA0]"

text \<open>\<^verbatim>\<open>s.strip()\<close>\<close>

definition strip :: "string \<Rightarrow> string" where
  "strip s = rev (dropWhile is_space (rev (dropWhile is_space s)))"

text \<open>\<^verbatim>\<open>re.sub(r'\s+', ' ', s)\<close>: every maximal run of whitespace becomes one space.\<close>

function collapse_ws :: "string \<Rightarrow> string" where
  "collapse_ws [] = []"
| "collapse_ws (c # cs) =
     (if is_space c then CHR '' '' # collapse_ws (dropWhile is_space cs)
      else c # collapse_ws cs)"
  by pat_completeness auto
termination
  by (relation "measure length") (auto simp: length_dropWhile_le less_Suc_eq_le)

text \<open>\<^verbatim>\<open>s.startswith(p)\<close>\<close>

definition startswith :: "string \<Rightarrow> string \<Rightarrow> bool" where
  "startswith s p \<longleftrightarrow> take (length p) s = p"

text \<open>\<^verbatim>\<open>xs[:n]\<close> for a Python integer \<open>n\<close>: a negative bound counts from the end.\<close>

definition py_take :: "int \<Rightarrow> 'a list \<Rightarrow> 'a list" where
  "py_take n xs = (if 0 \<le> n then take (nat n) xs else take (length xs - nat (- n)) xs)"

text \<open>\<^verbatim>\<open>s.lower()\<close> on the ASCII letters.\<close>

definition lower_char :: "char \<Rightarrow> char" where
  "lower_char c =
     (case map_of (zip ''ABCDEFGHIJKLMNOPQRSTUVWXYZ'' ''abcdefghijklmnopqrstuvwxyz'') c of
        Some l \<Rightarrow> l | None \<Rightarrow> c)"

definition lower :: "string \<Rightarrow> string" where
  "lower s = map lower_char s"

text \<open>\<^verbatim>\<open>needle in haystack\<close> for strings.\<close>

fun contains :: "string \<Rightarrow> string \<Rightarrow> bool" where
  "contains [] needle = (needle = [])"
| "contains (c # cs) needle = (startswith (c # cs) needle \<or> contains cs needle)"


section \<open>URL splitting\<close>

text \<open>
  \<^verbatim>\<open>urllib.parse.urlparse\<close> as far as \<^verbatim>\<open>api.py\<close> reads its result: the scheme and
  the network location. The model follows \<^verbatim>\<open>urlsplit\<close>: leading C0 control
  characters and spaces are dropped, tab, carriage return and newline are removed, a
  scheme is everything before the first colon when it starts with an ASCII letter and
  consists of scheme characters, and the network location is what follows \<^verbatim>\<open>//\<close> up
  to the next \<^verbatim>\<open>/\<close>, \<^verbatim>\<open>?\<close> or \<^verbatim>\<open>#\<close>. An unbalanced square bracket in the network
  location raises \<^verbatim>\<open>ValueError\<close>, and so does a bracketed host that is neither an
  IPv6 address nor an IPvFuture address. The check of the network location under NFKC
  normalisation never raises on the first 256 code points and is left out.
\<close>

datatype py_error = ValueError string | PyException string

record parse_result =
  scheme :: string
  netloc :: string

definition ascii_letters :: string where
  "ascii_letters = ''abcdefghijklmnopqrstuvwxyzABCDEFGHIJKLMNOPQRSTUVWXYZ''"

definition scheme_chars :: string where
  "scheme_chars = ascii_letters @ ''0123456789+-.''"

definition c0_control_or_space :: "char \<Rightarrow> bool" where
  "c0_control_or_space c \<longleftrightarrow> (of_char c :: nat) \<le> 32"

definition unsafe_url_byte :: "char \<Rightarrow> bool" where
  "unsafe_url_byte c \<longleftrightarrow> c \<in> set [CHR 0x09, CHR 0x0D, CHR 0x0A]"

definition split_scheme :: "string \<Rightarrow> string \<times> string" where
  "split_scheme url =
     (let pre = takeWhile (\<lambda>c. c \<noteq> CHR '':'') url
      in if length pre < length url \<and> pre \<noteq> [] \<and> hd pre \<in> set ascii_letters
            \<and> (\<forall>c \<in> set pre. c \<in> set scheme_chars)
         then (lower pre, drop (Suc (length pre)) url)
         else ([], url))"

definition splitnetloc :: "string \<Rightarrow> string" where
  "splitnetloc rest = takeWhile (\<lambda>c. c \<notin> set ''/?#'') (drop 2 rest)"

text \<open>\<^verbatim>\<open>s.split(c)\<close> for a separator of one character.\<close>

fun split_on :: "char \<Rightarrow> string \<Rightarrow> string list" where
  "split_on c [] = [[]]"
| "split_on c (x # xs) =
     (if x = c then [] # split_on c xs
      else (case split_on c xs of
              p # ps \<Rightarrow> (x # p) # ps
            | [] \<Rightarrow> [[x]]))"

text \<open>\<^verbatim>\<open>int(s, 10)\<close> on a string of decimal digits.\<close>

definition decimal_value :: "string \<Rightarrow> nat" where
  "decimal_value s =
     foldl (\<lambda>n c. 10 * n + (case map_of (zip ''0123456789'' [0 ..< 10]) c of
                              Some d \<Rightarrow> d | None \<Rightarrow> 0)) 0 s"

text \<open>Whether \<^verbatim>\<open>ipaddress.IPv4Address(s)\<close> accepts the string.\<close>

definition parse_octet_ok :: "string \<Rightarrow> bool" where
  "parse_octet_ok octet_str \<longleftrightarrow>
     octet_str \<noteq> [] \<and> (\<forall>c \<in> set octet_str. c \<in> set ''0123456789'')
     \<and> length octet_str \<le> 3
     \<and> \<not> (octet_str \<noteq> ''0'' \<and> hd octet_str = CHR ''0'')
     \<and> decimal_value octet_str \<le> 255"

definition ipv4_address_ok :: "string \<Rightarrow> bool" where
  "ipv4_address_ok addr_str \<longleftrightarrow>
     CHR ''/'' \<notin> set addr_str \<and> addr_str \<noteq> []
     \<and> length (split_on CHR ''.'' addr_str) = 4
     \<and> (\<forall>octet \<in> set (split_on CHR ''.'' addr_str). parse_octet_ok octet)"

text \<open>Whether \<^verbatim>\<open>ipaddress.IPv6Address(s)\<close> accepts the string.\<close>

definition parse_hextet_ok :: "string \<Rightarrow> bool" where
  "parse_hextet_ok hextet_str \<longleftrightarrow>
     (\<forall>c \<in> set hextet_str. c \<in> set ''0123456789ABCDEFabcdef'')
     \<and> length hextet_str \<le> 4 \<and> hextet_str \<noteq> []"

definition ipv6_parts_ok :: "string list \<Rightarrow> bool" where
  "ipv6_parts_ok parts =
     (let n = length parts;
          skips = filter (\<lambda>i. parts ! i = []) [1 ..< n - 1]
      in if n > 9 then False
         else (case skips of
                 [] \<Rightarrow> n = 8 \<and> hd parts \<noteq> [] \<and> last parts \<noteq> []
                        \<and> (\<forall>h \<in> set parts. parse_hextet_ok h)
               | [skip_index] \<Rightarrow>
                   (let parts_hi = (if hd parts = [] then skip_index - 1 else skip_index);
                        parts_lo = (if last parts = [] then n - skip_index - 1 - 1
                                    else n - skip_index - 1)
                    in \<not> (hd parts = [] \<and> parts_hi \<noteq> 0)
                       \<and> \<not> (last parts = [] \<and> parts_lo \<noteq> 0)
                       \<and> parts_hi + parts_lo < 8
                       \<and> (\<forall>h \<in> set (take parts_hi parts). parse_hextet_ok h)
                       \<and> (\<forall>h \<in> set (drop (n - parts_lo) parts). parse_hextet_ok h))
               | _ \<Rightarrow> False))"

definition ipv6_address_ok :: "string \<Rightarrow> bool" where
  "ipv6_address_ok addr_str0 \<longleftrightarrow>
     CHR ''/'' \<notin> set addr_str0
     \<and> (let addr_str = takeWhile (\<lambda>c. c \<noteq> CHR ''%'') addr_str0;
             scope_id = drop (Suc (length addr_str)) addr_str0
         in \<not> (CHR ''%'' \<in> set addr_str0 \<and> (scope_id = [] \<or> CHR ''%'' \<in> set scope_id))
            \<and> addr_str \<noteq> []
            \<and> (let parts = split_on CHR '':'' addr_str
                in length parts \<ge> 3
                   \<and> (if CHR ''.'' \<in> set (last parts)
                       then ipv4_address_ok (last parts)
                            \<and> ipv6_parts_ok (butlast parts @ [''0'', ''0''])
                       else ipv6_parts_ok parts)))"

text \<open>
  \<^verbatim>\<open>_check_bracketed_host\<close>: an IPvFuture address matches
  \<^verbatim>\<open>\Av[a-fA-F0-9]+\..+\Z\<close>; any other host must be an IPv6 address.
\<close>

definition ipvfuture_ok :: "string \<Rightarrow> bool" where
  "ipvfuture_ok hostname =
     (let digits = takeWhile (\<lambda>c. c \<in> set ''0123456789ABCDEFabcdef'') (drop 1 hostname);
          rest = drop (1 + length digits) hostname
      in digits \<noteq> [] \<and> take 1 rest = ''.'' \<and> drop 1 rest \<noteq> []
         \<and> CHR 0x0A \<notin> set (drop 1 rest))"

definition check_bracketed_host :: "string \<Rightarrow> bool" where
  "check_bracketed_host hostname =
     (if startswith hostname ''v'' then ipvfuture_ok hostname
      else if ipv4_address_ok hostname then False
      else ipv6_address_ok hostname)"

definition bracketed_host :: "string \<Rightarrow> string" where
  "bracketed_host nl =
     takeWhile (\<lambda>c. c \<noteq> CHR '']'')
       (drop (Suc (length (takeWhile (\<lambda>c. c \<noteq> CHR ''['') nl))) nl)"

definition urlparse :: "string \<Rightarrow> py_error + parse_result" where
  "urlparse url0 =
     (let url = filter (\<lambda>c. \<not> unsafe_url_byte c) (dropWhile c0_control_or_space url0);
          (sch, rest) = split_scheme url
      in if take 2 rest = ''//''
         then (let nl = splitnetloc rest
               in if (CHR ''['' \<in> set nl \<and> CHR '']'' \<notin> set nl)
                     \<or> (CHR '']'' \<in> set nl \<and> CHR ''['' \<notin> set nl)
                  then Inl (ValueError ''Invalid IPv6 URL'')
                  else if CHR ''['' \<in> set nl \<and> CHR '']'' \<in> set nl
                          \<and> \<not> check_bracketed_host (bracketed_host nl)
                  then Inl (ValueError ''invalid bracketed host'')
                  else Inr \<lparr>scheme = sch, netloc = nl\<rparr>)
         else Inr \<lparr>scheme = sch, netloc = []\<rparr>)"


section \<open>Documents\<close>

text \<open>
  Dictionaries with string keys are association lists in insertion order; their values
  are JSON-like. \<open>py_truthy\<close> is Python's truth value, as the operator \<^verbatim>\<open>or\<close> uses it.
\<close>

datatype json = JNull | JStr string | JInt int | JBool bool | JDict "(string \<times> json) list"

type_synonym dict = "(string \<times> json) list"

definition dict_get :: "dict \<Rightarrow> string \<Rightarrow> json" where
  "dict_get d k = (case map_of d k of Some v \<Rightarrow> v | None \<Rightarrow> JNull)"

fun py_truthy :: "json \<Rightarrow> bool" where
  "py_truthy JNull = False"
| "py_truthy (JStr s) = (s \<noteq> [])"
| "py_truthy (JInt n) = (n \<noteq> 0)"
| "py_truthy (JBool b) = b"
| "py_truthy (JDict d) = (d \<noteq> [])"

text \<open>
  The document dictionaries \<^verbatim>\<open>{'name', 'content', 'url', 'meta_data'}\<close> of \<^verbatim>\<open>api.py\<close>;
  the fields carry the prefix \<open>d_\<close>. The name of a document read by the regular reader
  may be \<^verbatim>\<open>None\<close>.
\<close>

record document =
  d_name :: "string option"
  d_content :: string
  d_url :: string
  d_meta_data :: dict

text \<open>The depth a crawled document is tagged with: \<^verbatim>\<open>meta_data['depth']\<close>.\<close>

definition crawl_depth :: "document \<Rightarrow> int option" where
  "crawl_depth d = (case map_of (d_meta_data d) ''depth'' of Some (JInt n) \<Rightarrow> Some n | _ \<Rightarrow> None)"


section \<open>The browser scraper\<close>

text \<open>
  What the render engine and the HTML parser hand to \<^verbatim>\<open>scrape_page\<close> for one URL:
  the text of the page after the script, style and noscript elements are removed
  (\<^verbatim>\<open>soup.get_text(separator=' ', strip=True)\<close>), the stripped text of the title element
  when there is one, and the \<^verbatim>\<open>href\<close> values of the anchors in document order. A fetch
  is a function from the URL to such a page; \<open>None\<close> stands for any exception between
  \<^verbatim>\<open>browser.new_page()\<close> and the parse, which \<^verbatim>\<open>scrape_page\<close> catches and logs.
\<close>

record page =
  page_text :: string
  title :: "string option"
  hrefs :: "string list"

type_synonym fetcher = "string \<Rightarrow> page option"

text \<open>
  The state the nested function closes over: \<^verbatim>\<open>documents\<close> and \<^verbatim>\<open>visited_urls\<close>.
  \<open>fetched\<close> is a log of the URLs handed to the render engine, in order; the code does
  not keep it, the properties about fetches are stated on it.
\<close>

record crawl_state =
  documents :: "document list"
  visited_urls :: "string set"
  fetched :: "string list"

definition clean_text :: "string \<Rightarrow> string" where
  "clean_text raw = strip (collapse_ws raw)"

definition make_document :: "string \<Rightarrow> int \<Rightarrow> page \<Rightarrow> string \<Rightarrow> document" where
  "make_document page_url depth pg text_content =
     (let page_title = (case title pg of Some t \<Rightarrow> t | None \<Rightarrow> page_url)
      in \<lparr>d_name = Some page_title, d_content = text_content, d_url = page_url,
          d_meta_data = [(''url'', JStr page_url), (''title'', JStr page_title),
                       (''depth'', JInt depth)]\<rparr>)"

text \<open>
  The block of \<^verbatim>\<open>scrape_page\<close> that turns the parsed page into a document or into
  nothing: the text is cleaned and kept only when it is longer than 50 characters.
\<close>

definition extract_page :: "string \<Rightarrow> int \<Rightarrow> page \<Rightarrow> document option" where
  "extract_page page_url depth pg =
     (let text_content = clean_text (page_text pg)
      in if text_content \<noteq> [] \<and> length text_content > 50
         then Some (make_document page_url depth pg text_content)
         else None)"

text \<open>
  One iteration of the loop over the links: the link is skipped, followed, or the
  iteration raises (from \<^verbatim>\<open>urlparse\<close>), which ends the loop in the handler of the page.
\<close>

datatype link_action = Skip | Follow string | Raises

definition link_action :: "string \<Rightarrow> string \<Rightarrow> link_action" where
  "link_action page_url href =
     (case (if startswith href ''http'' then Inr (Some href)
            else if startswith href ''/''
            then (case urlparse page_url of
                    Inl e \<Rightarrow> Inl e
                  | Inr parsed \<Rightarrow> Inr (Some (scheme parsed @ ''://'' @ netloc parsed @ href)))
            else Inr None) of
        Inl e \<Rightarrow> Raises
      | Inr None \<Rightarrow> Skip
      | Inr (Some absolute_url) \<Rightarrow>
          (case urlparse absolute_url of
             Inl e \<Rightarrow> Raises
           | Inr pa \<Rightarrow>
               (case urlparse page_url of
                  Inl e \<Rightarrow> Raises
                | Inr pp \<Rightarrow> if netloc pa = netloc pp then Follow absolute_url else Skip)))"

text \<open>The URLs \<^verbatim>\<open>scrape_page\<close> is called on for the links of one page, in order.\<close>

fun follow_targets :: "string \<Rightarrow> string list \<Rightarrow> string list" where
  "follow_targets page_url [] = []"
| "follow_targets page_url (href # rest) =
     (case link_action page_url href of
        Skip \<Rightarrow> follow_targets page_url rest
      | Raises \<Rightarrow> []
      | Follow absolute_url \<Rightarrow> absolute_url # follow_targets page_url rest)"

function scrape_page :: "fetcher \<Rightarrow> int \<Rightarrow> int \<Rightarrow> string \<Rightarrow> int \<Rightarrow> crawl_state \<Rightarrow> crawl_state"
where
  "scrape_page fetch max_links max_depth page_url depth st =
     (if depth > max_depth \<or> page_url \<in> visited_urls st then st
      else
        let st1 = st\<lparr>visited_urls := insert page_url (visited_urls st),
                    fetched := fetched st @ [page_url]\<rparr>
        in case fetch page_url of
             None \<Rightarrow> st1
           | Some pg \<Rightarrow>
               let st2 = (case extract_page page_url depth pg of
                            Some doc \<Rightarrow> st1\<lparr>documents := documents st1 @ [doc]\<rparr>
                          | None \<Rightarrow> st1)
               in if depth < max_depth \<and> int (length (documents st2)) < max_links * 2
                  then foldl (\<lambda>s absolute_url.
                                scrape_page fetch max_links max_depth absolute_url (depth + 1) s)
                         st2 (follow_targets page_url (py_take max_links (hrefs pg)))
                  else st2)"
  by pat_completeness auto
termination
  by (relation "measure (\<lambda>(fetch, max_links, max_depth, page_url, depth, st).
        nat (max_depth + 1 - depth))") auto

declare scrape_page.simps [simp del]

definition initial_crawl_state :: crawl_state where
  "initial_crawl_state = \<lparr>documents = [], visited_urls = {}, fetched = []\<rparr>"

text \<open>\<^verbatim>\<open>scrape_page(url, depth=0)\<close> on the fresh state, as \<^verbatim>\<open>_scrape_with_browser_sync\<close> starts it.\<close>

definition crawl :: "fetcher \<Rightarrow> string \<Rightarrow> int \<Rightarrow> int \<Rightarrow> crawl_state" where
  "crawl fetch seed max_links max_depth =
     scrape_page fetch max_links max_depth seed 0 initial_crawl_state"

text \<open>
  \<^verbatim>\<open>_scrape_with_browser_sync\<close>: \<open>None\<close> for the browser means that Playwright or the
  browser does not start, which raises out of the function.
\<close>

definition scrape_with_browser_sync ::
  "fetcher option \<Rightarrow> string \<Rightarrow> int \<Rightarrow> int \<Rightarrow> py_error + document list" where
  "scrape_with_browser_sync browser seed max_links max_depth =
     (case browser of
        None \<Rightarrow> Inl (PyException ''browser launch failed'')
      | Some fetch \<Rightarrow> Inr (documents (crawl fetch seed max_links max_depth)))"


section \<open>The vector store\<close>

text \<open>
  The Qdrant client and the knowledge base of the agent are services outside
  \<^verbatim>\<open>api.py\<close>. The handlers are modelled over any store: a state of type \<open>'s\<close> and the
  three operations the code calls. \<open>scroll st limit offset with_payload\<close> is
  \<^verbatim>\<open>client.scroll\<close>, returning a page of points and the next page offset; \<open>delete\<close> is
  \<^verbatim>\<open>client.delete\<close> on a list of point ids; \<open>add_content\<close> is
  \<^verbatim>\<open>agent.knowledge.add_content_async(name, text_content, metadata)\<close>. Each may raise.
  A delete that raises leaves the state as it was.
\<close>

record point =
  pid :: nat
  payload :: "dict option"

type_synonym cursor = nat

record 's store_client =
  scroll :: "'s \<Rightarrow> nat \<Rightarrow> cursor option \<Rightarrow> bool \<Rightarrow> py_error + (point list \<times> cursor option)"
  delete :: "'s \<Rightarrow> nat list \<Rightarrow> py_error + 's"
  add_content :: "'s \<Rightarrow> string \<Rightarrow> string \<Rightarrow> dict option \<Rightarrow> py_error + 's"

text \<open>\<^verbatim>\<open>str(e)\<close>\<close>

fun error_text :: "py_error \<Rightarrow> string" where
  "error_text (ValueError m) = m"
| "error_text (PyException m) = m"

text \<open>
  The URL \<^verbatim>\<open>remove_url\<close> reads off a point: the \<^verbatim>\<open>url\<close> entry of the payload when it
  is truthy, else the \<^verbatim>\<open>url\<close> entry of the \<^verbatim>\<open>meta_data\<close> entry when that is a dictionary.
\<close>

definition point_url :: "point \<Rightarrow> json" where
  "point_url pt =
     (let pl = (case payload pt of Some d \<Rightarrow> d | None \<Rightarrow> [])
      in if py_truthy (dict_get pl ''url'') then dict_get pl ''url''
         else (case dict_get pl ''meta_data'' of
                 JDict m \<Rightarrow> dict_get m ''url''
               | _ \<Rightarrow> JNull))"

definition matches :: "string \<Rightarrow> point \<Rightarrow> bool" where
  "matches url pt \<longleftrightarrow> point_url pt = JStr url"

definition point_ids_to_delete :: "string \<Rightarrow> point list \<Rightarrow> nat list" where
  "point_ids_to_delete url points = map pid (filter (matches url) points)"

text \<open>
  The scan of \<^verbatim>\<open>remove_url\<close>. The loop is \<^verbatim>\<open>while True\<close> and ends only at an empty
  page or at a next page offset of \<^verbatim>\<open>None\<close>, so it is a partial function: \<open>None\<close> is a
  scan that does not return. The result is the count of deleted points or the exception
  raised, the store as the scan left it, and the points the inner \<^verbatim>\<open>for\<close> loop went
  through, in order (\<open>seen\<close>, which the code does not keep).
\<close>

partial_function (option) remove_loop ::
  "'s store_client \<Rightarrow> string \<Rightarrow> 's \<Rightarrow> cursor option \<Rightarrow> nat \<Rightarrow> point list
     \<Rightarrow> ((py_error + nat) \<times> 's \<times> point list) option"
where
  "remove_loop client url st offset deleted_count seen =
     (case scroll client st 100 offset True of
        Inl e \<Rightarrow> Some (Inl e, st, seen)
      | Inr (points, next_page_offset) \<Rightarrow>
          if points = [] then Some (Inr deleted_count, st, seen)
          else
            let ids = point_ids_to_delete url points
            in case (if ids \<noteq> [] then delete client st ids else Inr st) of
                 Inl e \<Rightarrow> Some (Inl e, st, seen @ points)
               | Inr st' \<Rightarrow>
                   let deleted_count' =
                         (if ids \<noteq> [] then deleted_count + length ids else deleted_count)
                   in case next_page_offset of
                        None \<Rightarrow> Some (Inr deleted_count', st', seen @ points)
                      | Some c \<Rightarrow>
                          remove_loop client url st' (Some c) deleted_count' (seen @ points))"

text \<open>The scan of \<^verbatim>\<open>clear_knowledge_base\<close>, collecting \<^verbatim>\<open>all_point_ids\<close>.\<close>

partial_function (option) clear_loop ::
  "'s store_client \<Rightarrow> 's \<Rightarrow> cursor option \<Rightarrow> nat list \<Rightarrow> (py_error + nat list) option"
where
  "clear_loop client st offset all_point_ids =
     (case scroll client st 100 offset False of
        Inl e \<Rightarrow> Some (Inl e)
      | Inr (points, next_page_offset) \<Rightarrow>
          if points = [] then Some (Inr all_point_ids)
          else
            let all_point_ids' = all_point_ids @ map pid points
            in case next_page_offset of
                 None \<Rightarrow> Some (Inr all_point_ids')
               | Some c \<Rightarrow> clear_loop client st (Some c) all_point_ids')"


section \<open>The handlers\<close>

text \<open>
  The module globals \<^verbatim>\<open>loaded_urls\<close> and \<^verbatim>\<open>knowledge_loaded\<close>, and whether \<^verbatim>\<open>agent\<close> is
  set. A handler takes the globals and the store and returns its response or the
  \<^verbatim>\<open>HTTPException\<close> it raises, with the globals and the store as it leaves them.
\<close>

record app_state =
  loaded_urls :: "string list"
  knowledge_loaded :: bool
  agent_ready :: bool

datatype http_exception = HTTPException nat string

text \<open>
  The responses; the counts are the numbers the message strings are formatted with.
\<close>

record initialize_response =
  init_success :: bool
  document_count :: nat
  scraper :: string
  js_warning :: bool
  init_loaded_urls :: "string list"

record remove_url_response =
  rm_success :: bool
  rm_deleted_count :: nat
  remaining_urls :: "string list"

record clear_response =
  clear_success :: bool
  clear_removed :: nat

subsection \<open>\<^verbatim>\<open>initialize_knowledge\<close>\<close>

text \<open>A document of the regular website reader: \<^verbatim>\<open>name\<close>, \<^verbatim>\<open>content\<close>, \<^verbatim>\<open>meta_data\<close>.\<close>

record reader_document =
  r_name :: "string option"
  r_content :: string
  r_meta_data :: dict

type_synonym reader = "string \<Rightarrow> py_error + reader_document list"

definition convert_regular :: "string \<Rightarrow> reader_document \<Rightarrow> document" where
  "convert_regular url doc =
     \<lparr>d_name = r_name doc, d_content = r_content doc, d_url = url,
      d_meta_data = r_meta_data doc\<rparr>"

text \<open>
  What the browser scraper and the regular reader yield for the handler: an exception of
  either is caught and leaves no documents.
\<close>

definition browser_docs :: "fetcher option \<Rightarrow> string \<Rightarrow> document list" where
  "browser_docs browser url =
     (case scrape_with_browser_sync browser url 2 3 of Inl e \<Rightarrow> [] | Inr docs \<Rightarrow> docs)"

definition regular_docs :: "reader \<Rightarrow> string \<Rightarrow> document list" where
  "regular_docs website_reader url =
     (case website_reader url of Inl e \<Rightarrow> [] | Inr docs \<Rightarrow> map (convert_regular url) docs)"

text \<open>The pair \<^verbatim>\<open>(documents, use_browser)\<close> before the check for no content.\<close>

definition gather_documents :: "fetcher option \<Rightarrow> reader \<Rightarrow> string \<Rightarrow> document list \<times> bool" where
  "gather_documents browser website_reader url =
     (if browser_docs browser url \<noteq> [] then (browser_docs browser url, True)
      else (regular_docs website_reader url, False))"

definition js_indicators :: "string list" where
  "js_indicators = [''enable javascript'', ''you need to enable javascript'',
     ''javascript is disabled'']"

definition js_rendered_warning :: "bool \<Rightarrow> document list \<Rightarrow> bool" where
  "js_rendered_warning use_browser docs \<longleftrightarrow>
     \<not> use_browser \<and>
     (\<exists>doc \<in> set docs. \<exists>indicator \<in> set js_indicators. contains (lower (d_content doc)) indicator)"

text \<open>
  The loop that adds the documents to the knowledge base. It stops at the first
  exception, with the documents before it already added.
\<close>

fun add_documents ::
  "'s store_client \<Rightarrow> string \<Rightarrow> bool \<Rightarrow> document list \<Rightarrow> 's \<Rightarrow> py_error option \<times> 's" where
  "add_documents client url use_browser [] st = (None, st)"
| "add_documents client url use_browser (doc # rest) st =
     (let doc_metadata =
            AList.update ''scraped_with'' (JStr (if use_browser then ''browser'' else ''regular''))
              (AList.update ''url'' (JStr (d_url doc)) (d_meta_data doc))
      in case add_content client st
                (case d_name doc of Some n \<Rightarrow> if n \<noteq> [] then n else url | None \<Rightarrow> url)
                (d_content doc)
                (if doc_metadata \<noteq> [] then Some doc_metadata else None) of
           Inl e \<Rightarrow> (Some e, st)
         | Inr st' \<Rightarrow> add_documents client url use_browser rest st')"

definition no_content_extracted :: http_exception where
  "no_content_extracted = HTTPException 400
     ''No content could be extracted from the URL. The site may require authentication or be inaccessible.''"

definition initialize_knowledge ::
  "'s store_client \<Rightarrow> fetcher option \<Rightarrow> reader \<Rightarrow> string \<Rightarrow> app_state \<times> 's
     \<Rightarrow> (http_exception + initialize_response) \<times> app_state \<times> 's" where
  "initialize_knowledge client browser website_reader request_url = (\<lambda>(app, st).
     if \<not> agent_ready app then (Inl (HTTPException 503 ''Agent not initialized''), app, st)
     else if request_url = [] \<or> strip request_url = []
     then (Inl (HTTPException 400 ''URL cannot be empty''), app, st)
     else
       let url = strip request_url
       in if \<not> (startswith url ''http://'' \<or> startswith url ''https://'')
          then (Inl (HTTPException 400 ''URL must start with http:// or https://''), app, st)
          else
            let (documents, use_browser) = gather_documents browser website_reader url
            in if documents = [] then (Inl no_content_extracted, app, st)
               else
                 case add_documents client url use_browser documents st of
                   (Some e, st') \<Rightarrow>
                     (Inl (HTTPException 500 (''Error loading knowledge base: '' @ error_text e)),
                      app, st')
                 | (None, st') \<Rightarrow>
                     let app' = app\<lparr>knowledge_loaded := True,
                                    loaded_urls := (if url \<notin> set (loaded_urls app)
                                                    then loaded_urls app @ [url]
                                                    else loaded_urls app)\<rparr>
                     in (Inr \<lparr>init_success = True, document_count = length documents,
                              scraper = (if use_browser then ''browser'' else ''regular''),
                              js_warning = js_rendered_warning use_browser documents,
                              init_loaded_urls = loaded_urls app'\<rparr>,
                         app', st'))"

subsection \<open>\<^verbatim>\<open>get_loaded_urls\<close>\<close>


subsection \<open>\<^verbatim>\<open>remove_url\<close>\<close>

definition remove_url ::
  "'s store_client \<Rightarrow> string \<Rightarrow> app_state \<times> 's
     \<Rightarrow> ((http_exception + remove_url_response) \<times> app_state \<times> 's) option" where
  "remove_url client request_url = (\<lambda>(app, st).
     if request_url = [] \<or> strip request_url = []
     then Some (Inl (HTTPException 400 ''URL cannot be empty''), app, st)
     else
       let url = strip request_url
       in if url \<notin> set (loaded_urls app)
          then Some (Inl (HTTPException 404 (''URL '' @ url @ '' not found in loaded URLs'')),
                     app, st)
          else
            case remove_loop client url st None 0 [] of
              None \<Rightarrow> None
            | Some (Inl e, st', seen) \<Rightarrow>
                Some (Inl (HTTPException 500 (''Error removing URL: '' @ error_text e)), app, st')
            | Some (Inr deleted_count, st', seen) \<Rightarrow>
                let remaining = remove1 url (loaded_urls app);
                    app' = app\<lparr>loaded_urls := remaining,
                               knowledge_loaded := (if length remaining = 0 then False
                                                    else knowledge_loaded app)\<rparr>
                in Some (Inr \<lparr>rm_success = True, rm_deleted_count = deleted_count,
                              remaining_urls = remaining\<rparr>,
                         app', st'))"

subsection \<open>\<^verbatim>\<open>clear_knowledge_base\<close>\<close>

definition clear_knowledge_base ::
  "'s store_client \<Rightarrow> app_state \<times> 's
     \<Rightarrow> ((http_exception + clear_response) \<times> app_state \<times> 's) option" where
  "clear_knowledge_base client = (\<lambda>(app, st).
     case clear_loop client st None [] of
       None \<Rightarrow> None
     | Some (Inl e) \<Rightarrow>
         Some (Inl (HTTPException 500 (''Error clearing knowledge base: '' @ error_text e)),
               app, st)
     | Some (Inr all_point_ids) \<Rightarrow>
         (case (if all_point_ids \<noteq> [] then delete client st all_point_ids else Inr st) of
            Inl e \<Rightarrow>
              Some (Inl (HTTPException 500 (''Error clearing knowledge base: '' @ error_text e)),
                    app, st)
          | Inr st' \<Rightarrow>
              Some (Inr \<lparr>clear_success = True, clear_removed = length all_point_ids\<rparr>,
                    app\<lparr>loaded_urls := [], knowledge_loaded := False\<rparr>, st')))"


section \<open>Stores to run the handlers on\<close>

subsection \<open>A collection in memory\<close>

text \<open>
  A store that scrolls and deletes as the specification describes the vector store: the
  collection may not exist yet, its points are kept in the order of their ids, a scroll
  returns up to \<open>limit\<close> points from the offset on together with the id of the point
  the next page starts at, and a scroll or a delete on a collection that does not exist
  raises.
\<close>

record mem_store =
  collection :: "point list option"
  next_id :: nat

definition collection_missing :: py_error where
  "collection_missing = PyException ''Collection website-content does not exist''"

definition mem_scroll ::
  "mem_store \<Rightarrow> nat \<Rightarrow> cursor option \<Rightarrow> bool \<Rightarrow> py_error + (point list \<times> cursor option)" where
  "mem_scroll st limit offset with_payload =
     (case collection st of
        None \<Rightarrow> Inl collection_missing
      | Some pts \<Rightarrow>
          let rest = (case offset of None \<Rightarrow> pts | Some c \<Rightarrow> dropWhile (\<lambda>p. pid p < c) pts)
          in Inr (map (\<lambda>p. if with_payload then p else p\<lparr>payload := None\<rparr>) (take limit rest),
                  if limit < length rest then Some (pid (rest ! limit)) else None))"

definition mem_delete :: "mem_store \<Rightarrow> nat list \<Rightarrow> py_error + mem_store" where
  "mem_delete st ids =
     (case collection st of
        None \<Rightarrow> Inl collection_missing
      | Some pts \<Rightarrow> Inr (st\<lparr>collection := Some (filter (\<lambda>p. pid p \<notin> set ids) pts)\<rparr>))"

text \<open>
  A knowledge base that keeps one record for each added content, with the next free id
  and the metadata under \<^verbatim>\<open>meta_data\<close>, as the data model of the specification has it
  (one document, one record). The knowledge base of the agent derives the ids of its
  records from their content and splits long contents, so that equal contents share a
  record and a long content has several; this definition stands for it only on contents
  that differ from each other and are short. No property below that holds for all
  stores rests on it: those take the \<open>add_content\<close> of the store as any function.
\<close>

definition mem_add_content ::
  "mem_store \<Rightarrow> string \<Rightarrow> string \<Rightarrow> dict option \<Rightarrow> py_error + mem_store" where
  "mem_add_content st nm text_content metadata =
     Inr \<lparr>collection = Some ((case collection st of None \<Rightarrow> [] | Some pts \<Rightarrow> pts)
             @ [\<lparr>pid = next_id st,
                 payload = Some [(''name'', JStr nm), (''content'', JStr text_content),
                                 (''meta_data'', JDict (case metadata of None \<Rightarrow> [] | Some m \<Rightarrow> m))]\<rparr>]),
          next_id = Suc (next_id st)\<rparr>"

definition mem_client :: "mem_store store_client" where
  "mem_client = \<lparr>scroll = mem_scroll, delete = mem_delete, add_content = mem_add_content\<rparr>"


subsection \<open>A stub that serves fixed pages\<close>

text \<open>
  A test double: the scroll serves the pages of a fixed list, the cursor being the index
  of the next page, and \<^verbatim>\<open>None\<close> after the last one; the deletes are logged.
\<close>

record stub_store =
  pages :: "point list list"
  delete_log :: "nat list list"

definition stub_scroll ::
  "stub_store \<Rightarrow> nat \<Rightarrow> cursor option \<Rightarrow> bool \<Rightarrow> py_error + (point list \<times> cursor option)" where
  "stub_scroll st limit offset with_payload =
     (let i = (case offset of None \<Rightarrow> 0 | Some c \<Rightarrow> c)
      in if i < length (pages st)
         then Inr (pages st ! i, if Suc i < length (pages st) then Some (Suc i) else None)
         else Inr ([], None))"

definition stub_delete :: "stub_store \<Rightarrow> nat list \<Rightarrow> py_error + stub_store" where
  "stub_delete st ids = Inr (st\<lparr>delete_log := delete_log st @ [ids]\<rparr>)"

definition stub_client :: "stub_store store_client" where
  "stub_client = \<lparr>scroll = stub_scroll, delete = stub_delete,
                  add_content = (\<lambda>st nm text_content metadata. Inr st)\<rparr>"

subsection \<open>A stub that records what is added\<close>

text \<open>
  A test double for the knowledge base: the state is the list of the calls of
  \<open>add_content\<close>, each with the name, the text and the metadata that were handed over.
\<close>

record add_call =
  call_name :: string
  call_text :: string
  call_metadata :: "dict option"

definition recording_client :: "add_call list store_client" where
  "recording_client = \<lparr>scroll = (\<lambda>st limit offset with_payload. Inr ([], None)),
                       delete = (\<lambda>st ids. Inr st),
                       add_content = (\<lambda>st nm text_content metadata.
                          Inr (st @ [\<lparr>call_name = nm, call_text = text_content,
                                       call_metadata = metadata\<rparr>]))\<rparr>"

subsection \<open>A stub whose cursor does not advance\<close>

definition stuck_client :: "unit store_client" where
  "stuck_client = \<lparr>scroll = (\<lambda>st limit offset with_payload.
                               Inr ([\<lparr>pid = 0, payload = None\<rparr>], Some 0)),
                   delete = (\<lambda>st ids. Inr st),
                   add_content = (\<lambda>st nm text_content metadata. Inr st)\<rparr>"


section \<open>Example inputs\<close>

definition page50 :: page where
  "page50 = \<lparr>page_text = replicate 50 CHR ''a'', title = None, hrefs = []\<rparr>"

definition page51 :: page where
  "page51 = \<lparr>page_text = replicate 51 CHR ''a'', title = Some ''T'', hrefs = [''/x'', ''/y'']\<rparr>"

text \<open>A site whose only page has a text of nine characters, and a reader that reads it.\<close>

definition short_site :: fetcher where
  "short_site u =
     (if u = ''https://a.com/''
      then Some \<lparr>page_text = ''too short'', title = None, hrefs = []\<rparr>
      else None)"

text \<open>A page served over https whose only link is to the same host over http.\<close>

definition mixed_scheme_site :: fetcher where
  "mixed_scheme_site u =
     (if u = ''https://a.com/''
      then Some \<lparr>page_text = [], title = None, hrefs = [''http://a.com/x'']\<rparr>
      else if u = ''http://a.com/x'' then Some \<lparr>page_text = [], title = None, hrefs = []\<rparr>
      else None)"

text \<open>A site of one page with two links that lead nowhere.\<close>

definition seed_only_site :: fetcher where
  "seed_only_site u = (if u = ''https://a.com/'' then Some page51 else None)"

text \<open>Two pages that link to each other and to themselves.\<close>

definition cyclic_site :: fetcher where
  "cyclic_site u =
     (if u = ''https://a.com/''
      then Some \<lparr>page_text = replicate 51 CHR ''a'', title = None, hrefs = [''/x'', ''/'']\<rparr>
      else if u = ''https://a.com/x''
      then Some \<lparr>page_text = replicate 60 CHR ''b'', title = Some ''X'', hrefs = [''/'', ''/x'']\<rparr>
      else None)"


text \<open>A point whose payload carries the URL under \<^verbatim>\<open>meta_data\<close>, as an ingested one does.\<close>

definition tagged_point :: "nat \<Rightarrow> string \<Rightarrow> point" where
  "tagged_point i u = \<lparr>pid = i, payload = Some [(''meta_data'', JDict [(''url'', JStr u)])]\<rparr>"

text \<open>Five records served in three pages.\<close>

definition three_pages :: stub_store where
  "three_pages = \<lparr>pages = [[tagged_point 1 ''https://a.com/'', tagged_point 2 ''https://b.org/''],
                            [tagged_point 3 ''https://a.com/'', tagged_point 4 ''https://a.com/''],
                            [tagged_point 5 ''https://b.org/'']],
                   delete_log = []\<rparr>"


text \<open>The scans are run on concrete stores by their recursion equations.\<close>

declare remove_loop.simps [code]
declare clear_loop.simps [code]

text \<open>The globals after start-up, and after one URL is loaded.\<close>

definition fresh_app :: app_state where
  "fresh_app = \<lparr>loaded_urls = [], knowledge_loaded = False, agent_ready = True\<rparr>"

definition loaded_app :: app_state where
  "loaded_app = \<lparr>loaded_urls = [''https://a.com/''], knowledge_loaded = True, agent_ready = True\<rparr>"

text \<open>Stores: the collection not yet created, created and empty, and holding two points.\<close>

definition no_collection :: mem_store where
  "no_collection = \<lparr>collection = None, next_id = 1\<rparr>"

definition empty_collection :: mem_store where
  "empty_collection = \<lparr>collection = Some [], next_id = 1\<rparr>"

definition two_points :: mem_store where
  "two_points = \<lparr>collection = Some [tagged_point 1 ''https://a.com/'', tagged_point 2 ''https://b.org/''],
                  next_id = 3\<rparr>"


text \<open>A store that serves one matching point and refuses to delete.\<close>

definition read_only_client :: "unit store_client" where
  "read_only_client = \<lparr>scroll = (\<lambda>st limit offset with_payload.
                                   Inr ([tagged_point 1 ''https://a.com/''], None)),
                       delete = (\<lambda>st ids. Inl (PyException ''forbidden'')),
                       add_content = (\<lambda>st nm text_content metadata. Inr st)\<rparr>"

text \<open>A regular reader that fails, and one that reads two documents.\<close>

definition short_reader :: reader where
  "short_reader u = Inr [\<lparr>r_name = Some ''Home'', r_content = ''too short'', r_meta_data = []\<rparr>]"

definition no_reader :: reader where
  "no_reader u = Inl (PyException ''connection refused'')"






section \<open>Properties of the crawler\<close>

lemma foldl_preserves:
  "P s \<Longrightarrow> (\<And>s x. x \<in> set xs \<Longrightarrow> P s \<Longrightarrow> P (f s x)) \<Longrightarrow> P (foldl f s xs)"
  by (induction xs arbitrary: s) auto

text \<open>
  An invariant rule for \<open>scrape_page\<close>: a property of the state that survives marking an
  unvisited URL as visited and fetched, and survives appending a document extracted from
  a fetched page at a depth between the starting depth and \<open>max_depth\<close>, holds after the
  whole traversal.
\<close>

lemma scrape_page_invariant:
  assumes visit: "\<And>s u. I s \<Longrightarrow> u \<notin> visited_urls s \<Longrightarrow>
             I (s\<lparr>visited_urls := insert u (visited_urls s), fetched := fetched s @ [u]\<rparr>)"
    and emit: "\<And>s u d pg doc. I s \<Longrightarrow> dmin \<le> d \<Longrightarrow> d \<le> max_depth \<Longrightarrow> fetch u = Some pg \<Longrightarrow>
             extract_page u d pg = Some doc \<Longrightarrow> I (s\<lparr>documents := documents s @ [doc]\<rparr>)"
  shows "I st \<Longrightarrow> dmin \<le> depth \<Longrightarrow> I (scrape_page fetch max_links max_depth page_url depth st)"
  using visit emit
proof (induction fetch max_links max_depth page_url depth st rule: scrape_page.induct)
  case (1 fetch max_links max_depth page_url depth st)
  note emit' = "1.prems"(4)
  note visit' = "1.prems"(3)
  have Ist: "I st" and dmin: "dmin \<le> depth" using "1.prems"(1,2) by auto
  show ?case
  proof (cases "depth > max_depth \<or> page_url \<in> visited_urls st")
    case True
    then show ?thesis using Ist by (subst scrape_page.simps) simp
  next
    case False
    define st1 where "st1 = st\<lparr>visited_urls := insert page_url (visited_urls st),
                    fetched := fetched st @ [page_url]\<rparr>"
    have inv1: "I st1" unfolding st1_def using visit'[OF Ist] False by simp
    show ?thesis
    proof (cases "fetch page_url")
      case None
      then show ?thesis using False inv1
        by (subst scrape_page.simps) (simp add: st1_def)
    next
      case (Some pg)
      define st2 where "st2 = (case extract_page page_url depth pg of
                            None \<Rightarrow> st1
                          | Some doc \<Rightarrow> st1\<lparr>documents := documents st1 @ [doc]\<rparr>)"
      have inv2: "I st2"
      proof (cases "extract_page page_url depth pg")
        case None
        then show ?thesis using inv1 by (simp add: st2_def)
      next
        case (Some doc)
        then show ?thesis using emit'[OF inv1 dmin _ \<open>fetch page_url = Some pg\<close> Some] False
          by (simp add: st2_def)
      qed
      show ?thesis
      proof (cases "depth < max_depth \<and> int (length (documents st2)) < max_links * 2")
        case True
        have "I (foldl (\<lambda>s absolute_url.
                                scrape_page fetch max_links max_depth absolute_url (depth + 1) s)
                         st2 (follow_targets page_url (py_take max_links (hrefs pg))))"
        proof (rule foldl_preserves[where P = I, OF inv2])
          fix s x
          assume x: "x \<in> set (follow_targets page_url (py_take max_links (hrefs pg)))" and s: "I s"
          show "I (scrape_page fetch max_links max_depth x (depth + 1) s)"
            using "1.IH"[OF False st1_def Some st2_def True x s _ visit' emit'] dmin by simp
        qed
        then show ?thesis using False Some True unfolding st2_def st1_def
          by (subst scrape_page.simps) (simp add: Let_def)
      next
        case F2: False
        then show ?thesis using False Some inv2 unfolding st2_def st1_def
          by (subst scrape_page.simps) (auto simp add: Let_def)
      qed
    qed
  qed
qed

lemma extract_page_Some:
  "extract_page page_url depth pg = Some doc \<Longrightarrow>
     doc = make_document page_url depth pg (clean_text (page_text pg))
     \<and> 50 < length (clean_text (page_text pg))"
  by (auto simp: extract_page_def Let_def split: if_splits)

lemma crawl_depth_make_document: "crawl_depth (make_document page_url depth pg t) = Some depth"
  by (simp add: crawl_depth_def make_document_def Let_def)

lemma content_make_document: "d_content (make_document page_url depth pg t) = t"
  by (simp add: make_document_def Let_def)

lemma link_action_Follow:
  "link_action page_url href = Follow u \<Longrightarrow>
     \<exists>pa pp. urlparse u = Inr pa \<and> urlparse page_url = Inr pp \<and> netloc pa = netloc pp
       \<and> (if startswith href ''http'' then u = href
           else startswith href ''/'' \<and> u = scheme pp @ ''://'' @ netloc pp @ href)"
  by (auto simp: link_action_def split: if_splits sum.splits option.splits)


subsection \<open>Links that are followed\<close>

text \<open>
  Claim C4, as the code has it. The crawler compares network locations only: from a page
  served over https it follows a link to the same host over http, so the scheme of a
  followed link need not match the scheme of the page.
\<close>

theorem crawl_follows_other_scheme:
  "fetched (crawl mixed_scheme_site ''https://a.com/'' 2 3) = [''https://a.com/'', ''http://a.com/x'']
   \<and> urlparse ''https://a.com/'' = Inr \<lparr>scheme = ''https'', netloc = ''a.com''\<rparr>
   \<and> urlparse ''http://a.com/x'' = Inr \<lparr>scheme = ''http'', netloc = ''a.com''\<rparr>"
  by code_simp

text \<open>
  Claim C4, amended: every URL the crawler recurses into from a page comes from one of
  the links of the page, parses, and has the network location of the page URL; a link
  that starts with \<^verbatim>\<open>http\<close> is taken as it is, and otherwise it starts with \<^verbatim>\<open>/\<close> and is
  appended to the scheme and network location of the page URL. The scheme is not compared.
\<close>

theorem follow_targets_same_netloc:
  "\<forall>u \<in> set (follow_targets page_url links).
     \<exists>href \<in> set links. \<exists>pa pp.
       urlparse u = Inr pa \<and> urlparse page_url = Inr pp \<and> netloc pa = netloc pp
       \<and> (if startswith href ''http'' then u = href
           else startswith href ''/'' \<and> u = scheme pp @ ''://'' @ netloc pp @ href)"
proof (induction links)
  case Nil
  then show ?case by simp
next
  case (Cons href rest)
  show ?case
  proof (cases "link_action page_url href")
    case Skip
    then show ?thesis using Cons.IH by auto
  next
    case (Follow a)
    from link_action_Follow[OF Follow] show ?thesis using Cons.IH Follow by auto
  next
    case Raises
    then show ?thesis by simp
  qed
qed

theorem follow_targets_same_netloc_witness:
  "follow_targets ''https://a.com/'' [''/x'', ''mailto:me'', ''https://b.org/''] = [''https://a.com/x'']
   \<and> (\<exists>pa pp. urlparse ''https://a.com/x'' = Inr pa \<and> urlparse ''https://a.com/'' = Inr pp
         \<and> netloc pa = netloc pp)"
proof -
  have t: "follow_targets ''https://a.com/'' [''/x'', ''mailto:me'', ''https://b.org/'']
             = [''https://a.com/x'']"
    by code_simp
  have "\<exists>pa pp. urlparse ''https://a.com/x'' = Inr pa \<and> urlparse ''https://a.com/'' = Inr pp
         \<and> netloc pa = netloc pp"
    using follow_targets_same_netloc
            [of "''https://a.com/''" "[''/x'', ''mailto:me'', ''https://b.org/'']", unfolded t]
    by (simp only: list.set ball_simps bex_simps) blast
  with t show ?thesis by blast
qed


subsection \<open>No URL is fetched twice\<close>

text \<open>
  Claim C7: for every fetcher (every link graph, cyclic or not), every seed URL and all
  limits, the URLs handed to the render engine during a crawl are pairwise distinct, and
  they are exactly the URLs recorded in the visited set. \<open>scrape_page\<close> is a total
  function, so the traversal ends.
\<close>

theorem crawl_fetches_each_url_once:
  "distinct (fetched (crawl fetch seed max_links max_depth))
   \<and> set (fetched (crawl fetch seed max_links max_depth))
       = visited_urls (crawl fetch seed max_links max_depth)"
  unfolding crawl_def
  by (rule scrape_page_invariant[where dmin = 0
        and I = "\<lambda>s. distinct (fetched s) \<and> set (fetched s) = visited_urls s"])
     (auto simp: initial_crawl_state_def)

theorem crawl_fetches_each_url_once_witness:
  "fetched (crawl cyclic_site ''https://a.com/'' 2 3) = [''https://a.com/'', ''https://a.com/x'']
   \<and> distinct (fetched (crawl cyclic_site ''https://a.com/'' 2 3))"
proof -
  have "fetched (crawl cyclic_site ''https://a.com/'' 2 3) = [''https://a.com/'', ''https://a.com/x'']"
    by code_simp
  with crawl_fetches_each_url_once[of cyclic_site "''https://a.com/''" 2 3]
  show ?thesis by blast
qed


subsection \<open>The depth limit\<close>

text \<open>
  Claim C8: every document a crawl with depth limit \<open>d\<close> returns is tagged with a depth
  between 0 and \<open>d\<close>; and with the limit 0, when the seed page is fetched and its cleaned
  text is longer than 50 characters, the crawl returns exactly one document, tagged with
  depth 0, and the seed is the only URL fetched.
\<close>

theorem crawl_depth_bounded:
  "(\<forall>doc \<in> set (documents (crawl fetch seed max_links d)).
      \<exists>n. crawl_depth doc = Some n \<and> 0 \<le> n \<and> n \<le> d)
   \<and> (fetch seed = Some pg \<and> 50 < length (clean_text (page_text pg)) \<longrightarrow>
        documents (crawl fetch seed max_links 0)
          = [make_document seed 0 pg (clean_text (page_text pg))]
        \<and> map crawl_depth (documents (crawl fetch seed max_links 0)) = [Some 0]
        \<and> fetched (crawl fetch seed max_links 0) = [seed])"
proof (intro conjI impI)
  show "\<forall>doc \<in> set (documents (crawl fetch seed max_links d)).
      \<exists>n. crawl_depth doc = Some n \<and> 0 \<le> n \<and> n \<le> d"
    unfolding crawl_def
    by (rule scrape_page_invariant[where dmin = 0
        and I = "\<lambda>s. \<forall>doc \<in> set (documents s). \<exists>n. crawl_depth doc = Some n \<and> 0 \<le> n \<and> n \<le> d"])
       (auto simp: initial_crawl_state_def crawl_depth_make_document dest!: extract_page_Some)
next
  assume a: "fetch seed = Some pg \<and> 50 < length (clean_text (page_text pg))"
  then have e: "extract_page seed 0 pg = Some (make_document seed 0 pg (clean_text (page_text pg)))"
    by (auto simp: extract_page_def Let_def)
  have c: "crawl fetch seed max_links 0
         = \<lparr>documents = [make_document seed 0 pg (clean_text (page_text pg))],
            visited_urls = {seed}, fetched = [seed]\<rparr>"
    unfolding crawl_def using a e
    by (subst scrape_page.simps) (simp add: initial_crawl_state_def Let_def)
  show "documents (crawl fetch seed max_links 0)
          = [make_document seed 0 pg (clean_text (page_text pg))]"
    and "map crawl_depth (documents (crawl fetch seed max_links 0)) = [Some 0]"
    and "fetched (crawl fetch seed max_links 0) = [seed]"
    by (simp_all add: c crawl_depth_make_document)
qed

theorem crawl_depth_bounded_witness:
  "documents (crawl seed_only_site ''https://a.com/'' 2 0)
     = [make_document ''https://a.com/'' 0 page51 (replicate 51 CHR ''a'')]
   \<and> map crawl_depth (documents (crawl seed_only_site ''https://a.com/'' 2 0)) = [Some 0]
   \<and> fetched (crawl seed_only_site ''https://a.com/'' 2 0) = [''https://a.com/'']"
proof -
  have f: "seed_only_site ''https://a.com/'' = Some page51"
    by (simp add: seed_only_site_def)
  have c: "clean_text (page_text page51) = replicate 51 CHR ''a''"
    by code_simp
  have l: "50 < length (clean_text (page_text page51))"
    by (simp add: c)
  from crawl_depth_bounded[of seed_only_site "''https://a.com/''" 2 0 page51] f l c
  show ?thesis by (simp add: crawl_depth_make_document)
qed


section \<open>Properties of the store scans\<close>

subsection \<open>A cursor that does not advance\<close>

lemma clear_loop_stuck_aux:
  assumes "clear_loop client st offset acc = Some r"
  shows "client \<noteq> stuck_client"
proof (rule clear_loop.raw_induct[where P = "\<lambda>c s off a r. c \<noteq> stuck_client", OF _ assms])
  fix f :: "unit store_client \<Rightarrow> unit \<Rightarrow> nat option \<Rightarrow> nat list \<Rightarrow> (py_error + nat list) option"
  fix c s off a r
  assume IH: "\<And>c s off a r. f c s off a = Some r \<Longrightarrow> c \<noteq> stuck_client"
    and step: "(case scroll c s 100 off False of
        Inl e \<Rightarrow> Some (Inl e)
      | Inr (points, next_page_offset) \<Rightarrow>
          if points = [] then Some (Inr a)
          else
            let all_point_ids' = a @ map pid points
            in case next_page_offset of
                 None \<Rightarrow> Some (Inr all_point_ids')
               | Some c' \<Rightarrow> f c s (Some c') all_point_ids') = Some r"
  show "c \<noteq> stuck_client"
  proof
    assume "c = stuck_client"
    with step have "f stuck_client s (Some 0) (a @ [0]) = Some r"
      by (simp add: stuck_client_def Let_def)
    from IH[OF this] show False by simp
  qed
qed

lemma remove_loop_stuck_aux:
  assumes "remove_loop client url st offset n seen = Some r"
  shows "client \<noteq> stuck_client"
proof (rule remove_loop.raw_induct[where P = "\<lambda>c u s off n seen r. c \<noteq> stuck_client", OF _ assms])
  fix f :: "unit store_client \<Rightarrow> string \<Rightarrow> unit \<Rightarrow> nat option \<Rightarrow> nat \<Rightarrow> point list
     \<Rightarrow> ((py_error + nat) \<times> unit \<times> point list) option"
  fix c u s off n seen r
  assume IH: "\<And>c u s off n seen r. f c u s off n seen = Some r \<Longrightarrow> c \<noteq> stuck_client"
    and step: "(case scroll c s 100 off True of
        Inl e \<Rightarrow> Some (Inl e, s, seen)
      | Inr (points, next_page_offset) \<Rightarrow>
          if points = [] then Some (Inr n, s, seen)
          else
            let ids = point_ids_to_delete u points
            in case (if ids \<noteq> [] then delete c s ids else Inr s) of
                 Inl e \<Rightarrow> Some (Inl e, s, seen @ points)
               | Inr st' \<Rightarrow>
                   let deleted_count' =
                         (if ids \<noteq> [] then n + length ids else n)
                   in case next_page_offset of
                        None \<Rightarrow> Some (Inr deleted_count', st', seen @ points)
                      | Some c' \<Rightarrow>
                          f c u st' (Some c') deleted_count' (seen @ points)) = Some r"
  show "c \<noteq> stuck_client"
  proof
    assume "c = stuck_client"
    with step have "\<exists>n' seen'. f stuck_client u () (Some 0) n' seen' = Some r"
      by (auto simp add: stuck_client_def Let_def split: if_splits)
    with IH show False by blast
  qed
qed

text \<open>
  Claim C3, as the code has it. Against a store that keeps returning a page with one
  point and the same next page offset, neither scan returns: the loops have no exit but
  an empty page or an offset of \<^verbatim>\<open>None\<close>.
\<close>

theorem scans_diverge_on_stuck_cursor:
  "remove_loop stuck_client ''https://a.com/'' () None 0 [] = None
   \<and> clear_loop stuck_client () None [] = None"
  using remove_loop_stuck_aux clear_loop_stuck_aux
  by (metis not_Some_eq)


subsection \<open>A cursor that advances\<close>

lemma remove_loop_returns:
  fixes m :: "'s \<Rightarrow> cursor option \<Rightarrow> nat"
  assumes adv: "\<And>st offset points c ids st'.
      scroll client st 100 offset True = Inr (points, Some c) \<Longrightarrow> points \<noteq> [] \<Longrightarrow>
      st' = st \<or> delete client st ids = Inr st' \<Longrightarrow> m st' (Some c) < m st offset"
  shows "\<exists>r. remove_loop client url st offset n seen = Some r"
proof (induction "m st offset" arbitrary: st offset n seen rule: less_induct)
  case less
  show ?case
  proof (cases "scroll client st 100 offset True")
    case (Inl e)
    then show ?thesis by (subst remove_loop.simps) simp
  next
    case (Inr pr)
    obtain points nxt where pr: "pr = (points, nxt)" by (cases pr)
    show ?thesis
    proof (cases "points = []")
      case True
      then show ?thesis using Inr pr by (subst remove_loop.simps) simp
    next
      case False
      define ids where "ids = point_ids_to_delete url points"
      show ?thesis
      proof (cases "if ids \<noteq> [] then delete client st ids else Inr st")
        case (Inl e)
        then show ?thesis using Inr pr False unfolding ids_def
          by (subst remove_loop.simps) (simp add: Let_def)
      next
        case st': (Inr st')
        show ?thesis
        proof (cases nxt)
          case None
          then show ?thesis using Inr pr False st' unfolding ids_def
            by (subst remove_loop.simps) (simp add: Let_def)
        next
          case (Some c)
          have "st' = st \<or> delete client st ids = Inr st'"
            using st' by (auto split: if_splits)
          from adv[OF _ False this, of offset c] Inr pr Some
          have "m st' (Some c) < m st offset" by simp
          from less[OF this] obtain r where r:
            "remove_loop client url st' (Some c)
               (if ids \<noteq> [] then n + length ids else n) (seen @ points) = Some r"
            by blast
          have "remove_loop client url st offset n seen
              = remove_loop client url st' (Some c)
                  (if ids \<noteq> [] then n + length ids else n) (seen @ points)"
            using Inr pr False st' Some unfolding ids_def
            by (subst remove_loop.simps) (simp add: Let_def)
          with r show ?thesis by (simp only: exI[of _ r])
        qed
      qed
    qed
  qed
qed

lemma clear_loop_returns:
  fixes m :: "'s \<Rightarrow> cursor option \<Rightarrow> nat"
  assumes adv: "\<And>offset points c.
      scroll client st 100 offset False = Inr (points, Some c) \<Longrightarrow> points \<noteq> [] \<Longrightarrow>
      m st (Some c) < m st offset"
  shows "\<exists>r. clear_loop client st offset acc = Some r"
proof (induction "m st offset" arbitrary: offset acc rule: less_induct)
  case less
  show ?case
  proof (cases "scroll client st 100 offset False")
    case (Inl e)
    then show ?thesis by (subst clear_loop.simps) simp
  next
    case (Inr pr)
    obtain points nxt where pr: "pr = (points, nxt)" by (cases pr)
    show ?thesis
    proof (cases "points = []")
      case True
      then show ?thesis using Inr pr by (subst clear_loop.simps) simp
    next
      case False
      show ?thesis
      proof (cases nxt)
        case None
        then show ?thesis using Inr pr False
          by (subst clear_loop.simps) (simp add: Let_def)
      next
        case (Some c)
        from adv[OF _ False, of offset c] Inr pr Some
        have "m st (Some c) < m st offset" by simp
        from less[OF this] obtain r where r:
          "clear_loop client st (Some c) (acc @ map pid points) = Some r"
          by blast
        have "clear_loop client st offset acc
            = clear_loop client st (Some c) (acc @ map pid points)"
          using Inr pr False Some
          by (subst clear_loop.simps) (simp add: Let_def)
        with r show ?thesis by (simp only: exI[of _ r])
      qed
    qed
  qed
qed

text \<open>
  Claim C3, amended: both scans return for every store whose cursor advances, that is,
  when some measure of the store and the offset gets smaller with every page that is not
  empty and has a next page offset, whatever the scan deletes in between. The scans of a
  store whose cursor does not advance need not return.
\<close>

theorem scans_return_when_cursor_advances:
  fixes m :: "'s \<Rightarrow> cursor option \<Rightarrow> nat"
  assumes "\<And>st offset with_payload points c ids st'.
      scroll client st 100 offset with_payload = Inr (points, Some c) \<Longrightarrow> points \<noteq> [] \<Longrightarrow>
      st' = st \<or> delete client st ids = Inr st' \<Longrightarrow> m st' (Some c) < m st offset"
  shows "(\<exists>r. remove_loop client url st None 0 [] = Some r)
       \<and> (\<exists>r. clear_loop client st None [] = Some r)"
proof
  show "\<exists>r. remove_loop client url st None 0 [] = Some r"
    by (rule remove_loop_returns[where m = m]) (rule assms)
  show "\<exists>r. clear_loop client st None [] = Some r"
    by (rule clear_loop_returns[where m = m]) (rule assms, assumption, assumption, simp)
qed

theorem scans_return_when_cursor_advances_witness:
  "(\<exists>r. remove_loop stub_client ''https://a.com/'' three_pages None 0 [] = Some r)
   \<and> (\<exists>r. clear_loop stub_client three_pages None [] = Some r)"
proof (rule scans_return_when_cursor_advances
         [where m = "\<lambda>st offset. length (pages st) - (case offset of None \<Rightarrow> 0 | Some c \<Rightarrow> c)"])
  fix st :: stub_store and offset with_payload points c ids st'
  assume "scroll stub_client st 100 offset with_payload = Inr (points, Some c)"
    and "points \<noteq> []" and "st' = st \<or> delete stub_client st ids = Inr st'"
  then show "length (pages st') - (case Some c of None \<Rightarrow> 0 | Some c \<Rightarrow> c)
           < length (pages st) - (case offset of None \<Rightarrow> 0 | Some c \<Rightarrow> c)"
    by (auto simp: stub_client_def stub_scroll_def stub_delete_def Let_def
             split: if_splits option.splits)
qed


subsection \<open>Pages linked by cursors\<close>

lemma point_ids_to_delete_append:
  "point_ids_to_delete url (xs @ ys) = point_ids_to_delete url xs @ point_ids_to_delete url ys"
  by (simp add: point_ids_to_delete_def)

lemma stub_remove_loop:
  assumes "\<forall>ps \<in> set (pages st). ps \<noteq> []"
    and "i = (case offset of None \<Rightarrow> 0 | Some c \<Rightarrow> c)"
    and "i \<le> length (pages st)"
  shows "remove_loop stub_client url st offset n seen
       = Some (Inr (n + length (point_ids_to_delete url (concat (drop i (pages st))))),
               st\<lparr>delete_log := delete_log st
                      @ filter (\<lambda>ids. ids \<noteq> []) (map (point_ids_to_delete url) (drop i (pages st)))\<rparr>,
               seen @ concat (drop i (pages st)))"
  using assms
proof (induction "length (pages st) - i" arbitrary: st i offset n seen rule: less_induct)
  case less
  note nonempty = less.prems(1) and i = less.prems(2) and le = less.prems(3)
  show ?case
  proof (cases "i < length (pages st)")
    case False
    with le have "i = length (pages st)" by simp
    then show ?thesis using i
      by (subst remove_loop.simps)
         (simp add: stub_client_def stub_scroll_def point_ids_to_delete_def)
  next
    case True
    define pg where "pg = pages st ! i"
    have pg: "pg \<noteq> []" using nonempty True by (simp add: pg_def)
    have dr: "drop i (pages st) = pg # drop (Suc i) (pages st)"
      using True by (simp add: pg_def Cons_nth_drop_Suc)
    define ids where "ids = point_ids_to_delete url pg"
    define st' where "st' = (if ids \<noteq> [] then st\<lparr>delete_log := delete_log st @ [ids]\<rparr> else st)"
    have pages': "pages st' = pages st" by (simp add: st'_def)
    show ?thesis
    proof (cases "Suc i < length (pages st)")
      case last: False
      with True have "drop (Suc i) (pages st) = []" by simp
      with dr have dr1: "drop i (pages st) = [pg]" by simp
      show ?thesis using True last i pg unfolding dr1
        by (subst remove_loop.simps)
           (auto simp add: stub_client_def stub_scroll_def stub_delete_def Let_def pg_def)
    next
      case more: True
      have step: "remove_loop stub_client url st offset n seen
                = remove_loop stub_client url st' (Some (Suc i))
                    (if ids \<noteq> [] then n + length ids else n) (seen @ pg)"
        using True more i pg unfolding st'_def ids_def pg_def
        by (subst remove_loop.simps)
           (auto simp add: stub_client_def stub_scroll_def stub_delete_def Let_def)
      have "length (pages st') - Suc i < length (pages st) - i"
        using True by (simp add: pages')
      from less.hyps[OF this, of "Some (Suc i)"] nonempty more
      have "remove_loop stub_client url st' (Some (Suc i))
                    (if ids \<noteq> [] then n + length ids else n) (seen @ pg)
          = Some (Inr ((if ids \<noteq> [] then n + length ids else n)
                       + length (point_ids_to_delete url (concat (drop (Suc i) (pages st'))))),
               st'\<lparr>delete_log := delete_log st'
                      @ filter (\<lambda>ids. ids \<noteq> []) (map (point_ids_to_delete url) (drop (Suc i) (pages st')))\<rparr>,
               (seen @ pg) @ concat (drop (Suc i) (pages st')))"
        by (simp add: pages')
      then show ?thesis unfolding step dr
        by (auto simp add: pages' st'_def ids_def point_ids_to_delete_append)
    qed
  qed
qed

text \<open>
  Claim C2: against a store that serves its records in pages linked by cursors, each
  page holding records, the scan of \<^verbatim>\<open>remove_url\<close> returns, and the points its inner
  loop went through are the records of all pages, each once and in order. The count it
  reports is the number of matching records, and the deletes it issued are the matching
  ids of each page that has some.
\<close>

theorem remove_scan_visits_each_record_once:
  assumes "\<forall>ps \<in> set (pages st). ps \<noteq> []"
  shows "remove_loop stub_client url st None 0 []
       = Some (Inr (length (point_ids_to_delete url (concat (pages st)))),
               st\<lparr>delete_log := delete_log st
                      @ filter (\<lambda>ids. ids \<noteq> []) (map (point_ids_to_delete url) (pages st))\<rparr>,
               concat (pages st))"
  using stub_remove_loop[OF assms, of 0 None url 0 "[]"] by simp

theorem remove_scan_visits_each_record_once_witness:
  "remove_loop stub_client ''https://a.com/'' three_pages None 0 []
     = Some (Inr 3, three_pages\<lparr>delete_log := [[1], [3, 4]]\<rparr>,
             [tagged_point 1 ''https://a.com/'', tagged_point 2 ''https://b.org/'',
              tagged_point 3 ''https://a.com/'', tagged_point 4 ''https://a.com/'',
              tagged_point 5 ''https://b.org/''])"
proof -
  have ne: "\<forall>ps \<in> set (pages three_pages). ps \<noteq> []"
    by (simp add: three_pages_def)
  have m: "matches ''https://a.com/'' (tagged_point i ''https://a.com/'')"
    "\<not> matches ''https://a.com/'' (tagged_point i ''https://b.org/'')" for i
    by (simp_all add: matches_def point_url_def tagged_point_def dict_get_def)
  have p: "pid (tagged_point i u) = i" for i u by (simp add: tagged_point_def)
  show ?thesis
    using remove_scan_visits_each_record_once[OF ne, of "''https://a.com/''"]
    by (simp add: three_pages_def point_ids_to_delete_def m p)
qed


section \<open>Properties of the handlers\<close>

subsection \<open>The scans of a collection in memory\<close>

lemma dropWhile_sorted_rest:
  assumes "sorted_wrt (<) (map pid (kept @ rest))" and "rest \<noteq> []"
  shows "dropWhile (\<lambda>p. pid p < pid (hd rest)) (kept @ rest) = rest"
proof -
  obtain r rs where rest: "rest = r # rs" using assms(2) by (cases rest) auto
  have "\<forall>x \<in> set kept. pid x < pid r"
    using assms(1) by (auto simp: rest sorted_wrt_append sorted_wrt_map)
  then have "dropWhile (\<lambda>p. pid p < pid r) (kept @ rest) = dropWhile (\<lambda>p. pid p < pid r) rest"
    by (simp add: dropWhile_append2)
  then show ?thesis by (simp add: rest)
qed

lemma mem_scroll_at:
  assumes "collection st = Some (kept @ rest)"
    and "sorted_wrt (<) (map pid (kept @ rest))"
    and "offset = None \<and> kept = [] \<or> rest \<noteq> [] \<and> offset = Some (pid (hd rest))"
  shows "mem_scroll st lim offset b
       = Inr (map (\<lambda>p. if b then p else p\<lparr>payload := None\<rparr>) (take lim rest),
              if lim < length rest then Some (pid (rest ! lim)) else None)"
  using assms dropWhile_sorted_rest[OF assms(2)]
  by (auto simp: mem_scroll_def Let_def)

lemma mem_clear_loop:
  assumes "collection st = Some (kept @ rest)"
    and "sorted_wrt (<) (map pid (kept @ rest))"
    and "offset = None \<and> kept = [] \<or> rest \<noteq> [] \<and> offset = Some (pid (hd rest))"
  shows "clear_loop mem_client st offset acc = Some (Inr (acc @ map pid rest))"
  using assms
proof (induction "length rest" arbitrary: kept rest offset acc rule: less_induct)
  case less
  note coll = less.prems(1) and srt = less.prems(2) and off = less.prems(3)
  have sc: "scroll mem_client st 100 offset False
       = Inr (map (\<lambda>p. p\<lparr>payload := None\<rparr>) (take 100 rest),
              if 100 < length rest then Some (pid (rest ! 100)) else None)"
    using mem_scroll_at[OF coll srt off, of 100 False] by (simp add: mem_client_def)
  have ids: "map pid (map (\<lambda>p. p\<lparr>payload := None\<rparr>) (take 100 rest)) = map pid (take 100 rest)"
    by simp
  show ?case
  proof (cases "rest = []")
    case True
    then show ?thesis using sc by (subst clear_loop.simps) simp
  next
    case False
    show ?thesis
    proof (cases "100 < length rest")
      case short: False
      then have "take 100 rest = rest" by simp
      then show ?thesis using sc False short
        by (subst clear_loop.simps) (simp add: Let_def comp_def)
    next
      case True
      have step: "clear_loop mem_client st offset acc
                = clear_loop mem_client st (Some (pid (rest ! 100))) (acc @ map pid (take 100 rest))"
        using sc False True by (subst clear_loop.simps) (simp add: Let_def comp_def)
      have l: "length (drop 100 rest) < length rest" using False by simp
      have c': "collection st = Some ((kept @ take 100 rest) @ drop 100 rest)"
        using coll by simp
      have s': "sorted_wrt (<) (map pid ((kept @ take 100 rest) @ drop 100 rest))"
        using srt by simp
      have o': "Some (pid (rest ! 100)) = None \<and> kept @ take 100 rest = [] \<or>
                drop 100 rest \<noteq> [] \<and> Some (pid (rest ! 100)) = Some (pid (hd (drop 100 rest)))"
        using True by (simp add: hd_drop_conv_nth)
      from less.hyps[OF l c' s' o', of "acc @ map pid (take 100 rest)"]
      show ?thesis unfolding step
        by (simp flip: map_append)
    qed
  qed
qed




lemma strip_example: "strip ''https://a.com/'' = ''https://a.com/''"
  by code_simp

subsection \<open>Clearing the knowledge base\<close>

text \<open>
  Claim C6, as the code has it. When the collection does not exist the first scroll
  raises, and \<^verbatim>\<open>clear_knowledge_base\<close> answers with status 500; the globals stay as they
  were.
\<close>

theorem clear_fails_without_collection:
  "clear_knowledge_base mem_client (fresh_app, no_collection)
     = Some (Inl (HTTPException 500
                    (''Error clearing knowledge base: '' @ error_text collection_missing)),
             fresh_app, no_collection)"
  by code_simp

text \<open>
  The rest of claim C6: on a collection that exists, \<^verbatim>\<open>clear_knowledge_base\<close> succeeds; the
  scan collects the id of every record, over all pages and in order; the count reported
  is the number of records, 0 for an empty collection, whose store is left as it is;
  and when there are records the store after the call is the result of one delete of
  all the ids. The list of loaded URLs is emptied.
\<close>

theorem clear_knowledge_base_existing_collection:
  assumes "collection st = Some pts" and "sorted_wrt (<) (map pid pts)"
  shows "clear_loop mem_client st None [] = Some (Inr (map pid pts))
     \<and> clear_knowledge_base mem_client (app, st)
         = Some (Inr \<lparr>clear_success = True, clear_removed = length pts\<rparr>,
                 app\<lparr>loaded_urls := [], knowledge_loaded := False\<rparr>,
                 st\<lparr>collection := Some []\<rparr>)
     \<and> (if pts = [] then st\<lparr>collection := Some []\<rparr> = st
         else delete mem_client st (map pid pts) = Inr (st\<lparr>collection := Some []\<rparr>))"
proof -
  have loop: "clear_loop mem_client st None [] = Some (Inr (map pid pts))"
    using mem_clear_loop[of st "[]" pts None "[]"] assms by simp
  have "filter (\<lambda>p. pid p \<notin> pid ` set pts) pts = []"
    by (auto simp: filter_empty_conv)
  then have del: "delete mem_client st (map pid pts) = Inr (st\<lparr>collection := Some []\<rparr>)"
    using assms(1) by (simp add: mem_client_def mem_delete_def)
  have emp: "pts = [] \<Longrightarrow> st\<lparr>collection := Some []\<rparr> = st"
    using assms(1) by simp
  have handler: "clear_knowledge_base mem_client (app, st)
         = Some (Inr \<lparr>clear_success = True, clear_removed = length pts\<rparr>,
                 app\<lparr>loaded_urls := [], knowledge_loaded := False\<rparr>,
                 st\<lparr>collection := Some []\<rparr>)"
  proof (cases "pts = []")
    case True
    then show ?thesis using loop emp by (simp add: clear_knowledge_base_def)
  next
    case False
    then show ?thesis using loop del by (simp add: clear_knowledge_base_def)
  qed
  show ?thesis using loop handler del emp by simp
qed

theorem clear_knowledge_base_existing_collection_witness:
  "clear_knowledge_base mem_client (loaded_app, empty_collection)
     = Some (Inr \<lparr>clear_success = True, clear_removed = 0\<rparr>, fresh_app, empty_collection)
   \<and> clear_knowledge_base mem_client (loaded_app, two_points)
     = Some (Inr \<lparr>clear_success = True, clear_removed = 2\<rparr>, fresh_app,
             \<lparr>collection = Some [], next_id = 3\<rparr>)"
proof -
  have 1: "collection empty_collection = Some []" "sorted_wrt (<) (map pid ([] :: point list))"
    by (simp_all add: empty_collection_def)
  have 2: "collection two_points = Some [tagged_point 1 ''https://a.com/'', tagged_point 2 ''https://b.org/'']"
    "sorted_wrt (<) (map pid [tagged_point 1 ''https://a.com/'', tagged_point 2 ''https://b.org/''])"
    by (simp_all add: two_points_def tagged_point_def)
  show ?thesis
    using clear_knowledge_base_existing_collection[OF 1, of loaded_app] clear_knowledge_base_existing_collection[OF 2, of loaded_app]
    by (simp add: loaded_app_def fresh_app_def empty_collection_def two_points_def)
qed

subsection \<open>A store error during removal\<close>

text \<open>
  Claim C10: when the scan of \<^verbatim>\<open>remove_url\<close> ends in an exception of the store, for a
  URL that is in \<^verbatim>\<open>loaded_urls\<close>, the handler answers with status 500 and returns the
  globals unchanged: the URL is still loaded and \<^verbatim>\<open>knowledge_loaded\<close> keeps its value.
\<close>

theorem remove_url_store_error_keeps_registry:
  assumes "request_url \<noteq> []" and "strip request_url \<in> set (loaded_urls app)"
    and "strip request_url \<noteq> []"
    and "remove_loop client (strip request_url) st None 0 [] = Some (Inl e, st', seen)"
  shows "remove_url client request_url (app, st)
       = Some (Inl (HTTPException 500 (''Error removing URL: '' @ error_text e)), app, st')"
  using assms by (simp add: remove_url_def Let_def)

theorem remove_url_store_error_keeps_registry_witness:
  "remove_url mem_client ''https://a.com/'' (loaded_app, no_collection)
     = Some (Inl (HTTPException 500 (''Error removing URL: '' @ error_text collection_missing)),
             loaded_app, no_collection)
   \<and> remove_url read_only_client ''https://a.com/'' (loaded_app, ())
     = Some (Inl (HTTPException 500 ''Error removing URL: forbidden''), loaded_app, ())"
proof -
  have l: "remove_loop mem_client ''https://a.com/'' no_collection None 0 []
         = Some (Inl collection_missing, no_collection, [])"
    by (subst remove_loop.simps) (simp add: mem_client_def mem_scroll_def no_collection_def)
  have m: "matches ''https://a.com/'' (tagged_point i ''https://a.com/'')" for i
    by (simp add: matches_def point_url_def tagged_point_def dict_get_def)
  have r: "remove_loop read_only_client ''https://a.com/'' () None 0 []
         = Some (Inl (PyException ''forbidden''), (), [tagged_point 1 ''https://a.com/''])"
    by (subst remove_loop.simps)
       (simp add: read_only_client_def point_ids_to_delete_def m)
  show ?thesis
    using remove_url_store_error_keeps_registry
            [of "''https://a.com/''" loaded_app mem_client no_collection collection_missing
                no_collection "[]"]
          remove_url_store_error_keeps_registry
            [of "''https://a.com/''" loaded_app read_only_client "()" "PyException ''forbidden''"
                "()" "[tagged_point 1 ''https://a.com/'']"]
          l r
    by (simp add: strip_example loaded_app_def)
qed


subsection \<open>Browser scraper first, regular reader second\<close>

text \<open>
  Claim C9: for a request that passes the checks before the scraping (the agent is set,
  the URL is not blank and starts with \<^verbatim>\<open>http://\<close> or \<^verbatim>\<open>https://\<close>), the handler fails
  with the no-content error exactly when the browser scraper raised or returned no
  documents and the regular reader raised or returned no documents. The documents are
  those of the browser scraper when it returned some, and else those of the regular
  reader.
\<close>

theorem no_content_iff_both_yield_nothing:
  assumes "agent_ready app" and "request_url \<noteq> []" and "strip request_url \<noteq> []"
    and "startswith (strip request_url) ''http://'' \<or> startswith (strip request_url) ''https://''"
  shows "(fst (initialize_knowledge client browser website_reader request_url (app, st))
            = Inl no_content_extracted
          \<longleftrightarrow> (case scrape_with_browser_sync browser (strip request_url) 2 3 of
                 Inl e \<Rightarrow> True | Inr docs \<Rightarrow> docs = [])
              \<and> (case website_reader (strip request_url) of
                   Inl e \<Rightarrow> True | Inr docs \<Rightarrow> docs = []))
     \<and> gather_documents browser website_reader (strip request_url)
         = (case scrape_with_browser_sync browser (strip request_url) 2 3 of
              Inr (d # ds) \<Rightarrow> (d # ds, True)
            | _ \<Rightarrow> (case website_reader (strip request_url) of
                      Inl e \<Rightarrow> ([], False)
                    | Inr docs \<Rightarrow> (map (convert_regular (strip request_url)) docs, False)))"
proof
  let ?u = "strip request_url"
  have b: "browser_docs browser ?u = [] \<longleftrightarrow>
      (case scrape_with_browser_sync browser ?u 2 3 of Inl e \<Rightarrow> True | Inr docs \<Rightarrow> docs = [])"
    by (simp add: browser_docs_def split: sum.splits)
  have r: "regular_docs website_reader ?u = [] \<longleftrightarrow>
      (case website_reader ?u of Inl e \<Rightarrow> True | Inr docs \<Rightarrow> docs = [])"
    by (simp add: regular_docs_def split: sum.splits)
  have g: "fst (gather_documents browser website_reader ?u) = [] \<longleftrightarrow>
      browser_docs browser ?u = [] \<and> regular_docs website_reader ?u = []"
    by (simp add: gather_documents_def)
  have "fst (initialize_knowledge client browser website_reader request_url (app, st))
            = Inl no_content_extracted
        \<longleftrightarrow> fst (gather_documents browser website_reader ?u) = []"
    using assms
    by (auto simp: initialize_knowledge_def Let_def no_content_extracted_def
             split: prod.splits option.splits)
  then show "fst (initialize_knowledge client browser website_reader request_url (app, st))
            = Inl no_content_extracted
          \<longleftrightarrow> (case scrape_with_browser_sync browser ?u 2 3 of
                 Inl e \<Rightarrow> True | Inr docs \<Rightarrow> docs = [])
              \<and> (case website_reader ?u of
                   Inl e \<Rightarrow> True | Inr docs \<Rightarrow> docs = [])"
    using g b r by simp
  show "gather_documents browser website_reader ?u
         = (case scrape_with_browser_sync browser ?u 2 3 of
              Inr (d # ds) \<Rightarrow> (d # ds, True)
            | _ \<Rightarrow> (case website_reader ?u of
                      Inl e \<Rightarrow> ([], False)
                    | Inr docs \<Rightarrow> (map (convert_regular ?u) docs, False)))"
    by (simp add: gather_documents_def browser_docs_def regular_docs_def
             split: sum.splits list.splits)
qed

theorem no_content_iff_both_yield_nothing_witness:
  "fst (initialize_knowledge mem_client None no_reader ''https://a.com/'' (fresh_app, no_collection))
     = Inl no_content_extracted"
proof -
  have s: "startswith ''https://a.com/'' ''https://''" by code_simp
  have a: "agent_ready fresh_app" by (simp add: fresh_app_def)
  show ?thesis
    using no_content_iff_both_yield_nothing[of fresh_app "''https://a.com/''" mem_client None no_reader no_collection] s a
    by (simp add: strip_example scrape_with_browser_sync_def no_reader_def)
qed


subsection \<open>Ingestion followed by removal\<close>

lemma initialize_knowledge_success:
  assumes "initialize_knowledge client browser website_reader u (app, st) = (Inr resp, app1, st1)"
  shows "u \<noteq> [] \<and> strip u \<noteq> []
     \<and> fst (gather_documents browser website_reader (strip u)) \<noteq> []
     \<and> add_documents client (strip u) (snd (gather_documents browser website_reader (strip u)))
          (fst (gather_documents browser website_reader (strip u))) st = (None, st1)
     \<and> loaded_urls app1 = (if strip u \<notin> set (loaded_urls app) then loaded_urls app @ [strip u]
                            else loaded_urls app)
     \<and> knowledge_loaded app1
     \<and> document_count resp = length (fst (gather_documents browser website_reader (strip u)))
     \<and> scraper resp = (if snd (gather_documents browser website_reader (strip u))
                         then ''browser'' else ''regular'')"
  using assms
  by (auto simp: initialize_knowledge_def Let_def split: if_splits prod.splits option.splits)




subsection \<open>The minimum length of a document\<close>

lemma crawl_documents_long:
  "\<forall>doc \<in> set (documents (crawl fetch seed max_links max_depth)). 50 < length (d_content doc)"
proof -
  have "\<forall>doc \<in> set (documents (scrape_page fetch max_links max_depth seed 0 initial_crawl_state)).
          50 < length (d_content doc)"
    by (rule scrape_page_invariant[where dmin = 0
          and I = "\<lambda>s. \<forall>doc \<in> set (documents s). 50 < length (d_content doc)"])
       (auto simp: initial_crawl_state_def content_make_document dest!: extract_page_Some)
  then show ?thesis by (simp add: crawl_def)
qed

lemma recording_add_documents:
  "\<exists>new. add_documents recording_client url use_browser docs log = (None, log @ new)
        \<and> map call_text new = map d_content docs"
proof (induction docs arbitrary: log)
  case Nil
  show ?case by simp
next
  case (Cons doc docs)
  obtain c where step: "add_documents recording_client url use_browser (doc # docs) log
                      = add_documents recording_client url use_browser docs (log @ [c])"
    and c: "call_text c = d_content doc"
    by (simp add: recording_client_def Let_def)
  from Cons.IH[of "log @ [c]"] obtain new where
    n: "add_documents recording_client url use_browser docs (log @ [c]) = (None, (log @ [c]) @ new)"
    and t: "map call_text new = map d_content docs"
    by blast
  have "add_documents recording_client url use_browser (doc # docs) log = (None, log @ (c # new))"
    unfolding step n by simp
  moreover have "map call_text (c # new) = map d_content (doc # docs)"
    using c t by simp
  ultimately show ?case by blast
qed

text \<open>
  Claim C5, as the code has it. A page whose cleaned text has exactly 50 characters is
  not under the threshold of 50, and yet no document is made of it. And a page whose
  text of nine characters is dropped by the browser scraper is still stored: the handler
  falls back to the regular reader and adds what it read, with no test of the length.
\<close>

theorem empty_at_50_and_short_text_stored:
  "extract_page ''https://a.com/'' 0 page50 = None
   \<and> \<not> length (clean_text (page_text page50)) < 50
   \<and> map_option (extract_page ''https://a.com/'' 0) (short_site ''https://a.com/'') = Some None
   \<and> map call_text (snd (snd (initialize_knowledge recording_client (Some short_site) short_reader
                                  ''https://a.com/'' (fresh_app, []))))
       = [''too short'']"
  by code_simp

text \<open>
  Claim C5, amended: a page the crawler fetched yields no document exactly when its
  cleaned text has at most 50 characters; the body of a document that is made is the
  cleaned text and is longer than 50 characters, and so is the body of every document a
  crawl returns; and an ingestion that uses the browser scraper hands to the knowledge
  base the bodies of the documents of the crawl and nothing else, each longer than 50
  characters. The documents of the regular reader are stored as they are read.
\<close>

theorem extract_page_threshold:
  "(extract_page page_url depth pg = None \<longleftrightarrow> length (clean_text (page_text pg)) \<le> 50)
   \<and> (\<forall>doc. extract_page page_url depth pg = Some doc \<longrightarrow>
         d_content doc = clean_text (page_text pg) \<and> 50 < length (d_content doc))
   \<and> (\<forall>doc \<in> set (documents (crawl fetch seed max_links max_depth)). 50 < length (d_content doc))
   \<and> (\<forall>resp app' log'.
         initialize_knowledge recording_client browser website_reader request_url (app, log)
           = (Inr resp, app', log') \<and> scraper resp = ''browser'' \<longrightarrow>
         (\<exists>site new. browser = Some site \<and> log' = log @ new
            \<and> map call_text new = map d_content (documents (crawl site (strip request_url) 2 3))
            \<and> (\<forall>c \<in> set new. 50 < length (call_text c))))"
proof (intro conjI allI impI)
  show "extract_page page_url depth pg = None \<longleftrightarrow> length (clean_text (page_text pg)) \<le> 50"
    by (auto simp: extract_page_def Let_def)
next
  fix doc assume "extract_page page_url depth pg = Some doc"
  from extract_page_Some[OF this]
  show "d_content doc = clean_text (page_text pg)" and "50 < length (d_content doc)"
    by (simp_all add: content_make_document)
next
  show "\<forall>doc \<in> set (documents (crawl fetch seed max_links max_depth)). 50 < length (d_content doc)"
    by (rule crawl_documents_long)
next
  fix resp app' log'
  assume a: "initialize_knowledge recording_client browser website_reader request_url (app, log)
           = (Inr resp, app', log') \<and> scraper resp = ''browser''"
  let ?u = "strip request_url"
  let ?g = "gather_documents browser website_reader ?u"
  from a initialize_knowledge_success[of recording_client browser website_reader request_url app log resp app' log']
  have add: "add_documents recording_client ?u (snd ?g) (fst ?g) log = (None, log')"
    and ne: "fst ?g \<noteq> []"
    and sb: "(if snd ?g then ''browser'' else ''regular'') = ''browser''"
    by simp_all
  have ub: "snd ?g" using sb by (auto split: if_splits)
  then have g: "fst ?g = browser_docs browser ?u" and bne: "browser_docs browser ?u \<noteq> []"
    by (auto simp: gather_documents_def split: if_splits)
  from bne obtain site where site: "browser = Some site"
    and docs: "browser_docs browser ?u = documents (crawl site ?u 2 3)"
    by (cases browser) (auto simp: browser_docs_def scrape_with_browser_sync_def)
  from recording_add_documents[of ?u "snd ?g" "fst ?g" log] add obtain new where
    l: "log' = log @ new" and t: "map call_text new = map d_content (fst ?g)"
    by auto
  have "\<forall>x \<in> set (map call_text new). 50 < length x"
    unfolding t g docs using crawl_documents_long[of site ?u 2 3] by simp
  then have "\<forall>c \<in> set new. 50 < length (call_text c)" by simp
  then show "\<exists>site new. browser = Some site \<and> log' = log @ new
            \<and> map call_text new = map d_content (documents (crawl site ?u 2 3))
            \<and> (\<forall>c \<in> set new. 50 < length (call_text c))"
    using site l t g docs by auto
qed

theorem extract_page_threshold_witness:
  "extract_page ''https://a.com/'' 0 page51 \<noteq> None
   \<and> d_content (the (extract_page ''https://a.com/'' 0 page51)) = replicate 51 CHR ''a''
   \<and> 50 < length (d_content (the (extract_page ''https://a.com/'' 0 page51)))
   \<and> map call_text (snd (snd (initialize_knowledge recording_client (Some seed_only_site) no_reader
                                  ''https://a.com/'' (fresh_app, []))))
       = [replicate 51 CHR ''a'']"
proof -
  have e: "extract_page ''https://a.com/'' 0 page51
        = Some (make_document ''https://a.com/'' 0 page51 (replicate 51 CHR ''a''))"
    by code_simp
  have c: "clean_text (page_text page51) = replicate 51 CHR ''a''"
    by code_simp
  have s: "map call_text (snd (snd (initialize_knowledge recording_client (Some seed_only_site) no_reader
                                  ''https://a.com/'' (fresh_app, []))))
       = [replicate 51 CHR ''a'']"
    by code_simp
  from extract_page_threshold[of "''https://a.com/''" 0 page51] e c s show ?thesis
    by simp
qed

end
